theory Spec2Isabelle
  imports Complex_Main
begin

section \<open>The puzzle state of starcast\_game.js\<close>

text \<open>
  The receiver keeps a grid of sprites in \<open>this.pieces_\<close>, an array of rows. Of a sprite the
  puzzle logic reads and writes the boolean \<open>flipped\<close> and the horizontal scale
  \<open>scale.x\<close> (a JavaScript number; only ever compared with 0 and set to 0 or 1 here, so a
  rational stands for it). The fields below are the source's fields without their
  trailing underscore.
\<close>

record piece =
  flipped :: bool
  scale_x :: rat

text \<open>
  The texts put on the screen. The source builds them by string concatenation around
  numbers; the model keeps the numbers: the flip count and the points of the heads-up
  display and of the final message, the suggested count of the hint.
\<close>

record score_text =
  shown_flips :: int
  shown_points :: int

datatype message =
    FlipSuggestionMessage int
  | CongratMessage
  | CountflipsMessage int int

record game =
  pieces :: "piece list list"
  suggestedFlipCount :: int
  extraFlipsThanNecessary :: int
  playerEachFlipCount :: int
  hud :: "score_text option"
  messages :: "message list"
  backgroundVisible :: bool

text \<open>
  The game as it starts to take messages: the fields as the constructor \<open>StarcastGame\<close>
  sets them (no pieces yet, both counters 0, no heads-up display) and the background
  sprite of \<open>onAssetsLoaded_\<close>, visible. The pieces arrive later, when the image has
  loaded and \<open>imageOnLoad\<close> calls \<open>instantiatePuzzlePiecesAndControlButtons\<close>.
\<close>

definition StarcastGame :: game where
  "StarcastGame =
     \<lparr>pieces = [], suggestedFlipCount = 0, extraFlipsThanNecessary = 10,
      playerEachFlipCount = 0, hud = None, messages = [], backgroundVisible = True\<rparr>"

text \<open>
  \<open>throw Error(msg)\<close> of \<open>flipPieces\<close>, and the TypeError JavaScript raises when a
  property of \<open>undefined\<close> is read. A call that throws has mutated the game up to the
  throw, so a thrown result carries the state reached.
\<close>

datatype error = Error string | TypeError

type_synonym 'a thrown = "(error \<times> 'a) + 'a"

subsection \<open>Flipping one piece\<close>

text \<open>
  \<open>flipPieceTween\<close> negates \<open>flipped\<close> and starts a createjs tween on the scale; the
  tween runs later, outside the message handler, and never touches \<open>flipped\<close>.
  \<open>flipPiece\<close> negates \<open>flipped\<close> and sets the scale at once.
\<close>

definition flipPieceTween :: "piece \<Rightarrow> piece" where
  "flipPieceTween p = p\<lparr>flipped := \<not> flipped p\<rparr>"

definition flipPiece :: "piece \<Rightarrow> piece" where
  "flipPiece p =
     (let q = p\<lparr>flipped := \<not> flipped p\<rparr>
      in if scale_x q = 0 then q\<lparr>scale_x := 1\<rparr> else q\<lparr>scale_x := 0\<rparr>)"

text \<open>
  \<open>this.pieces_[r][c]\<close>: an index outside an array reads \<open>undefined\<close>. When the row is
  \<open>undefined\<close> the second subscript throws; when only the cell is, the flip function
  throws on reading \<open>piece.flipped\<close>. Either way a TypeError, before anything is written.
\<close>

definition piece_at :: "piece list list \<Rightarrow> int \<Rightarrow> int \<Rightarrow> piece option" where
  "piece_at ps r c =
     (if 0 \<le> r \<and> r < int (length ps)
      then (if 0 \<le> c \<and> c < int (length (ps ! nat r))
            then Some (ps ! nat r ! nat c) else None)
      else None)"

text \<open>
  The body shared by every flipping loop: for each index pair in turn, flip the piece
  there, in place.
\<close>

fun flip_cells ::
  "(piece \<Rightarrow> piece) \<Rightarrow> (int \<times> int) list \<Rightarrow> piece list list \<Rightarrow> (piece list list) thrown"
where
  "flip_cells f [] ps = Inr ps"
| "flip_cells f ((r, c) # rcs) ps =
     (case piece_at ps r c of
        None \<Rightarrow> Inl (TypeError, ps)
      | Some p \<Rightarrow> flip_cells f rcs (ps[nat r := (ps ! nat r)[nat c := f p]]))"

subsection \<open>Messages on the screen\<close>

definition checkFlipsFromPlayerMessage :: "game \<Rightarrow> game" where
  "checkFlipsFromPlayerMessage s =
     s\<lparr>hud := Some \<lparr>shown_flips = playerEachFlipCount s,
                     shown_points = 10 * (suggestedFlipCount s + extraFlipsThanNecessary s
                                          - playerEachFlipCount s)\<rparr>\<rparr>"

definition displayCountflipsFromPlayerMessage :: "game \<Rightarrow> game" where
  "displayCountflipsFromPlayerMessage s =
     s\<lparr>messages := messages s @
        [CountflipsMessage (playerEachFlipCount s)
           (10 * (suggestedFlipCount s - playerEachFlipCount s))]\<rparr>"

definition displayFlipSuggestionMessage :: "game \<Rightarrow> game" where
  "displayFlipSuggestionMessage s =
     s\<lparr>messages := messages s @ [FlipSuggestionMessage (suggestedFlipCount s)]\<rparr>"

definition displayCongratMessage :: "game \<Rightarrow> game" where
  "displayCongratMessage s = s\<lparr>messages := messages s @ [CongratMessage]\<rparr>"

definition scoreSystem :: "game \<Rightarrow> game" where
  "scoreSystem s =
     (if playerEachFlipCount s = suggestedFlipCount s then displayCountflipsFromPlayerMessage s
      else if playerEachFlipCount s > suggestedFlipCount s then displayCountflipsFromPlayerMessage s
      else s)"

subsection \<open>The solved check\<close>

text \<open>
  Two nested loops, both bounded by \<open>this.pieces_.length\<close>, returning false at the first
  flipped piece.
\<close>

fun solved_scan :: "piece list list \<Rightarrow> (nat \<times> nat) list \<Rightarrow> error + bool" where
  "solved_scan ps [] = Inr True"
| "solved_scan ps ((i, j) # ijs) =
     (case piece_at ps (int i) (int j) of
        None \<Rightarrow> Inl TypeError
      | Some p \<Rightarrow> if flipped p then Inr False else solved_scan ps ijs)"

definition checkPuzzleIsSolved :: "game \<Rightarrow> error + bool" where
  "checkPuzzleIsSolved s =
     (let n = length (pieces s)
      in solved_scan (pieces s) (concat (map (\<lambda>i. map (\<lambda>j. (i, j)) [0..<n]) [0..<n])))"

subsection \<open>A flip command\<close>

text \<open>
  The index pairs the three loops of \<open>flipPieces\<close> visit, each loop running \<open>i\<close> from 0 to
  \<open>this.pieces_.length\<close>; no loop for any other \<open>rowOrCol\<close>.
\<close>

definition flip_targets :: "nat \<Rightarrow> string \<Rightarrow> int \<Rightarrow> (int \<times> int) list option" where
  "flip_targets n rowOrCol numRowOrCol =
     (if rowOrCol = ''ROW'' then Some (map (\<lambda>i. (numRowOrCol, int i)) [0..<n])
      else if rowOrCol = ''COL'' then Some (map (\<lambda>i. (int i, numRowOrCol)) [0..<n])
      else if rowOrCol = ''DIAGONAL'' then Some (map (\<lambda>i. (int n - int i - 1, int i)) [0..<n])
      else None)"

text \<open>
  \<open>flipPieces(playerSprite, rowOrCol, numRowOrCol)\<close>; the sprite argument is not used by
  the body and is left out. \<open>rowOrCol\<close> is a string and \<open>numRowOrCol\<close> an integer, the
  two fields of a sender's message.
\<close>

definition flipPieces :: "game \<Rightarrow> string \<Rightarrow> int \<Rightarrow> game thrown" where
  "flipPieces s rowOrCol numRowOrCol =
     (case flip_targets (length (pieces s)) rowOrCol numRowOrCol of
        None \<Rightarrow>
          Inl (Error (''Only Row, COL, DIAGONAL are allowed but received '' @ rowOrCol), s)
      | Some rcs \<Rightarrow>
          (case flip_cells flipPieceTween rcs (pieces s) of
             Inl (e, ps) \<Rightarrow> Inl (e, s\<lparr>pieces := ps\<rparr>)
           | Inr ps \<Rightarrow>
               (let s1 = s\<lparr>pieces := ps\<rparr>;
                    s2 = s1\<lparr>playerEachFlipCount := playerEachFlipCount s1 + 1\<rparr>;
                    s3 = checkFlipsFromPlayerMessage s2
                in case checkPuzzleIsSolved s3 of
                     Inl e \<Rightarrow> Inl (e, s3)
                   | Inr solved \<Rightarrow>
                       if solved
                       then Inr ((scoreSystem (displayCongratMessage s3))
                                   \<lparr>backgroundVisible := False\<rparr>)
                       else Inr s3)))"

text \<open>Commands handled one after the other; a throw aborts the handler of that message.\<close>

fun flip_all :: "game \<Rightarrow> (string \<times> int) list \<Rightarrow> game thrown" where
  "flip_all s [] = Inr s"
| "flip_all s ((rowOrCol, numRowOrCol) # cmds) =
     (case flipPieces s rowOrCol numRowOrCol of
        Inl es \<Rightarrow> Inl es
      | Inr s' \<Rightarrow> flip_all s' cmds)"

subsection \<open>Creating and scrambling the grid\<close>

text \<open>
  \<open>createSpriteFromSpriteSheet\<close> returns an unflipped piece scaled by \<open>XScaleRate\<close>, which
  it computes from the width of the loaded image; the rate is a parameter here.
\<close>

definition createSpriteFromSpriteSheet :: "rat \<Rightarrow> piece" where
  "createSpriteFromSpriteSheet XScaleRate = \<lparr>flipped = False, scale_x = XScaleRate\<rparr>"

text \<open>
  The creation loops: \<open>this.pieces_.push([])\<close> for each row, then
  \<open>this.pieces_[row].push(piece)\<close> for each column.
\<close>

fun push_cols :: "rat \<Rightarrow> nat \<Rightarrow> nat list \<Rightarrow> piece list list \<Rightarrow> piece list list" where
  "push_cols x row [] ps = ps"
| "push_cols x row (col # cols) ps =
     push_cols x row cols (ps[row := ps ! row @ [createSpriteFromSpriteSheet x]])"

fun push_rows :: "rat \<Rightarrow> nat \<Rightarrow> nat list \<Rightarrow> piece list list \<Rightarrow> piece list list" where
  "push_rows x totalCol [] ps = ps"
| "push_rows x totalCol (row # rows) ps =
     push_rows x totalCol rows (push_cols x row [0..<totalCol] (ps @ [[]]))"

text \<open>
  The three scrambling loops have one shape: draw \<open>Math.random() < 0.5\<close>; when it holds,
  flip the pieces of one line with \<open>flipPiece\<close> and then count one suggested flip. A line
  is given with the number of its draw: \<open>rnd k\<close> is the outcome of the \<open>k\<close>-th call of
  \<open>Math.random() < 0.5\<close>, counted from 0.
\<close>

fun scramble_lines ::
  "(nat \<Rightarrow> bool) \<Rightarrow> (nat \<times> (int \<times> int) list) list \<Rightarrow> game \<Rightarrow> game thrown"
where
  "scramble_lines rnd [] s = Inr s"
| "scramble_lines rnd ((k, rcs) # lines) s =
     (if rnd k
      then (case flip_cells flipPiece rcs (pieces s) of
              Inl (e, ps) \<Rightarrow> Inl (e, s\<lparr>pieces := ps\<rparr>)
            | Inr ps \<Rightarrow>
                scramble_lines rnd lines
                  (s\<lparr>pieces := ps, suggestedFlipCount := suggestedFlipCount s + 1\<rparr>))
      else scramble_lines rnd lines s)"

text \<open>
  The lines in the order of the source: the rows (draws \<open>0 ..< totalRow\<close>), the columns
  (the next \<open>totalCol\<close> draws), the diagonal \<open>[this.pieces_.length - i - 1][i]\<close> for
  \<open>i < totalCol\<close> (the last draw).
\<close>

definition scramble_plan :: "nat \<Rightarrow> nat \<Rightarrow> nat \<Rightarrow> (nat \<times> (int \<times> int) list) list" where
  "scramble_plan len totalRow totalCol =
     map (\<lambda>row. (row, map (\<lambda>col. (int row, int col)) [0..<totalCol])) [0..<totalRow]
     @ map (\<lambda>col. (totalRow + col, map (\<lambda>row. (int row, int col)) [0..<totalRow])) [0..<totalCol]
     @ [(totalRow + totalCol, map (\<lambda>i. (int len - int i - 1, int i)) [0..<totalCol])]"

definition instantiatePuzzlePiecesAndControlButtons ::
  "game \<Rightarrow> nat \<Rightarrow> nat \<Rightarrow> rat \<Rightarrow> (nat \<Rightarrow> bool) \<Rightarrow> game thrown"
where
  "instantiatePuzzlePiecesAndControlButtons s totalRow totalCol XScaleRate rnd =
     (let s1 = s\<lparr>pieces := push_rows XScaleRate totalCol [0..<totalRow] (pieces s)\<rparr>
      in case scramble_lines rnd (scramble_plan (length (pieces s1)) totalRow totalCol) s1 of
           Inl es \<Rightarrow> Inl es
         | Inr s2 \<Rightarrow> Inr (displayFlipSuggestionMessage (checkFlipsFromPlayerMessage s2)))"

subsection \<open>Notions the statements use\<close>

text \<open>A grid of \<open>n\<close> rows of \<open>n\<close> pieces each.\<close>

definition square :: "piece list list \<Rightarrow> bool" where
  "square ps = list_all (\<lambda>row. length row = length ps) ps"

text \<open>The flags of a grid, row by row.\<close>

definition flags :: "piece list list \<Rightarrow> bool list list" where
  "flags ps = map (map flipped) ps"

text \<open>
  The state \<open>flipPieces\<close> has reached when its loop has ended with grid \<open>ps\<close>: the player's
  count incremented and the heads-up display refreshed, before the solved check.
\<close>

definition after_flips :: "game \<Rightarrow> piece list list \<Rightarrow> game" where
  "after_flips s ps =
     checkFlipsFromPlayerMessage
       (s\<lparr>pieces := ps, playerEachFlipCount := playerEachFlipCount s + 1\<rparr>)"

text \<open>
  The flip a command stands for: \<open>DIAGONAL\<close> is one flip whatever its index. A list of
  commands is even when every flip in it occurs an even number of times.
\<close>

definition flip_key :: "string \<times> int \<Rightarrow> string \<times> int" where
  "flip_key cmd = (fst cmd, if fst cmd = ''DIAGONAL'' then 0 else snd cmd)"

definition even_flips :: "(string \<times> int) list \<Rightarrow> bool" where
  "even_flips cmds =
     list_all (\<lambda>key. even (count_list (map flip_key cmds) key)) (map flip_key cmds)"

text \<open>A command that names an axis and, for a row or a column, an index inside \<open>0 ..< n\<close>.\<close>

definition valid_flip :: "nat \<Rightarrow> string \<times> int \<Rightarrow> bool" where
  "valid_flip n cmd =
     (fst cmd = ''DIAGONAL'' \<or>
      (fst cmd = ''ROW'' \<or> fst cmd = ''COL'') \<and> 0 \<le> snd cmd \<and> snd cmd < int n)"

text \<open>How often the loop of a command visits an index pair, on a grid of \<open>n\<close> rows.\<close>

definition visits :: "nat \<Rightarrow> string \<times> int \<Rightarrow> int \<times> int \<Rightarrow> nat" where
  "visits n cmd cell =
     (case flip_targets n (fst cmd) (snd cmd) of None \<Rightarrow> 0 | Some rcs \<Rightarrow> count_list rcs cell)"

subsection \<open>Example games\<close>

definition shown :: piece where
  "shown = \<lparr>flipped = False, scale_x = 1\<rparr>"

definition hidden :: piece where
  "hidden = \<lparr>flipped = True, scale_x = 0\<rparr>"

text \<open>
  A game on a grid of three rows of three pieces (the solved grid after a flip of row 1
  and of the diagonal), and one on a single row of two.
\<close>

definition game3 :: game where
  "game3 = StarcastGame\<lparr>pieces :=
     [[shown, shown, hidden], [hidden, shown, hidden], [hidden, shown, shown]]\<rparr>"

definition wide_game :: game where
  "wide_game = StarcastGame\<lparr>pieces := [[shown, hidden]]\<rparr>"

text \<open>
  Two games as the scrambling leaves them: a grid of six by six where only the first
  draw held, so that row 0 alone was flipped, and a grid of two by two where the draws of
  both rows and both columns held, so that every piece was flipped twice.
\<close>

definition scrambled_row0 :: game where
  "scrambled_row0 =
     projr (instantiatePuzzlePiecesAndControlButtons StarcastGame 6 6 1 (\<lambda>k. k = 0))"

definition all_scrambled2 :: game where
  "all_scrambled2 =
     projr (instantiatePuzzlePiecesAndControlButtons StarcastGame 2 2 1 (\<lambda>k. k < 4))"

text \<open>
  The three-by-three example solved by a flip of row 1 and of the diagonal, and a list of
  commands in which every flip occurs twice.
\<close>

definition solved3 :: game where
  "solved3 = projr (flip_all game3 [(''ROW'', 1), (''DIAGONAL'', 0)])"

definition paired_flips :: "(string \<times> int) list" where
  "paired_flips =
     [(''ROW'', 0), (''DIAGONAL'', 3), (''COL'', 2), (''ROW'', 0), (''COL'', 2), (''DIAGONAL'', 5)]"

section \<open>Properties of the flipping loop\<close>

lemma piece_at_Some:
  "piece_at ps r c = Some p \<longleftrightarrow>
     0 \<le> r \<and> r < int (length ps) \<and> 0 \<le> c \<and> c < int (length (ps ! nat r)) \<and> p = ps ! nat r ! nat c"
  by (auto simp: piece_at_def)

lemma piece_at_nat:
  "i < length ps \<Longrightarrow> j < length (ps ! i) \<Longrightarrow> piece_at ps (int i) (int j) = Some (ps ! i ! j)"
  by (simp add: piece_at_def)

lemma map_length_update2 [simp]:
  "map length (ps[r := (ps ! r)[c := q]]) = map length ps"
  by (cases "r < length ps") (simp_all add: map_update list_update_same_conv list_update_beyond)

lemma length_nth_update2 [simp]:
  "length (ps[r := (ps ! r)[c := q]] ! i) = length (ps ! i)"
  by (cases "r < length ps"; cases "i = r") (simp_all add: list_update_beyond)

lemma flip_cells_shape:
  "flip_cells f rcs ps = Inr ps' \<Longrightarrow> map length ps' = map length ps"
proof (induction rcs arbitrary: ps)
  case Nil
  then show ?case by simp
next
  case (Cons rc rcs)
  obtain r c where rc: "rc = (r, c)" by (cases rc)
  from Cons.prems rc obtain p where p: "piece_at ps r c = Some p"
    and rest: "flip_cells f rcs (ps[nat r := (ps ! nat r)[nat c := f p]]) = Inr ps'"
    by (auto split: option.splits)
  from Cons.IH [OF rest] show ?case
    by simp
qed

lemma flip_cells_cell:
  "flip_cells f rcs ps = Inr ps' \<Longrightarrow> i < length ps \<Longrightarrow> j < length (ps ! i) \<Longrightarrow>
   ps' ! i ! j = (f ^^ count_list rcs (int i, int j)) (ps ! i ! j)"
proof (induction rcs arbitrary: ps)
  case Nil
  then show ?case by simp
next
  case (Cons rc rcs)
  obtain r c where rc: "rc = (r, c)" by (cases rc)
  from Cons.prems(1) rc obtain p where p: "piece_at ps r c = Some p"
    and rest: "flip_cells f rcs (ps[nat r := (ps ! nat r)[nat c := f p]]) = Inr ps'"
    by (auto split: option.splits)
  let ?ps1 = "ps[nat r := (ps ! nat r)[nat c := f p]]"
  from p have v: "0 \<le> r" "nat r < length ps" "0 \<le> c" "nat c < length (ps ! nat r)"
    and pv: "p = ps ! nat r ! nat c"
    by (auto simp: piece_at_Some)
  have len: "i < length ?ps1" "j < length (?ps1 ! i)"
    using Cons.prems(2,3) by simp_all
  have step: "?ps1 ! i ! j = (if (r, c) = (int i, int j) then f (ps ! i ! j) else ps ! i ! j)"
    using Cons.prems(2,3) v pv by (auto simp: nth_list_update)
  from Cons.IH [OF rest len]
  have "ps' ! i ! j = (f ^^ count_list rcs (int i, int j)) (?ps1 ! i ! j)" .
  with step rc show ?case by (simp add: funpow_swap1)
qed

lemma flip_cells_valid:
  "(\<forall>(r, c) \<in> set rcs. 0 \<le> r \<and> r < int (length ps) \<and> 0 \<le> c \<and> c < int (length (ps ! nat r))) \<Longrightarrow>
   \<exists>ps'. flip_cells f rcs ps = Inr ps'"
proof (induction rcs arbitrary: ps)
  case Nil
  then show ?case by simp
next
  case (Cons rc rcs)
  obtain r c where rc: "rc = (r, c)" by (cases rc)
  let ?ps1 = "ps[nat r := (ps ! nat r)[nat c := f (ps ! nat r ! nat c)]]"
  from Cons.prems rc have p: "piece_at ps r c = Some (ps ! nat r ! nat c)"
    by (simp add: piece_at_def)
  have "\<forall>(r', c') \<in> set rcs. 0 \<le> r' \<and> r' < int (length ?ps1) \<and> 0 \<le> c' \<and> c' < int (length (?ps1 ! nat r'))"
    using Cons.prems by auto
  from Cons.IH [OF this] p rc show ?case by simp
qed

section \<open>Properties of the solved check\<close>

lemma square_nth: "square ps \<Longrightarrow> i < length ps \<Longrightarrow> length (ps ! i) = length ps"
  by (simp add: square_def list_all_length)

lemma square_shape: "map length ps' = map length ps \<Longrightarrow> square ps' = square ps"
proof -
  assume h: "map length ps' = map length ps"
  then have len: "length ps' = length ps" by (rule map_eq_imp_length_eq)
  have "\<And>i. i < length ps \<Longrightarrow> length (ps' ! i) = length (ps ! i)"
    using h len by (metis nth_map)
  with len show ?thesis by (simp add: square_def list_all_length)
qed

lemma solved_scan_valid:
  "(\<forall>(i, j) \<in> set ijs. i < length ps \<and> j < length (ps ! i)) \<Longrightarrow>
   solved_scan ps ijs = Inr (\<forall>(i, j) \<in> set ijs. \<not> flipped (ps ! i ! j))"
proof (induction ijs)
  case Nil
  then show ?case by simp
next
  case (Cons ij ijs)
  obtain i j where ij: "ij = (i, j)" by (cases ij)
  with Cons.prems have "piece_at ps (int i) (int j) = Some (ps ! i ! j)"
    by (simp add: piece_at_nat)
  with Cons ij show ?case by auto
qed

lemma all_pairs_set:
  "set (concat (map (\<lambda>i. map (\<lambda>j. (i, j)) [0..<n]) [0..<n])) = {0..<n} \<times> {0..<n}"
  by auto

lemma checkPuzzleIsSolved_square:
  assumes "square (pieces s)"
  shows "checkPuzzleIsSolved s = Inr (list_all (list_all (\<lambda>p. \<not> flipped p)) (pieces s))"
proof -
  let ?ps = "pieces s" and ?n = "length (pieces s)"
  let ?ijs = "concat (map (\<lambda>i. map (\<lambda>j. (i, j)) [0..<?n]) [0..<?n])"
  have valid: "\<forall>(i, j) \<in> set ?ijs. i < length ?ps \<and> j < length (?ps ! i)"
    using assms by (auto simp: square_nth)
  have "(\<forall>(i, j) \<in> set ?ijs. \<not> flipped (?ps ! i ! j)) =
        (\<forall>i<?n. \<forall>j<?n. \<not> flipped (?ps ! i ! j))"
    unfolding all_pairs_set by auto
  also have "\<dots> = list_all (list_all (\<lambda>p. \<not> flipped p)) ?ps"
    using assms by (auto simp: list_all_length square_nth)
  finally show ?thesis
    using solved_scan_valid [OF valid] by (simp add: checkPuzzleIsSolved_def Let_def)
qed

section \<open>Properties of a flip command\<close>

lemma count_list_distinct:
  "distinct xs \<Longrightarrow> count_list xs x = (if x \<in> set xs then 1 else 0)"
  by (induction xs) auto

lemma count_row_targets:
  "count_list (map (\<lambda>i. (k, int i)) [0..<n]) (int i, int j) = (if int i = k \<and> j < n then 1 else 0)"
proof -
  have "distinct (map (\<lambda>i. (k, int i)) [0..<n])"
    by (simp add: distinct_map inj_on_def)
  then show ?thesis by (auto simp: count_list_distinct)
qed

lemma count_col_targets:
  "count_list (map (\<lambda>i. (int i, k)) [0..<n]) (int i, int j) = (if int j = k \<and> i < n then 1 else 0)"
proof -
  have "distinct (map (\<lambda>i. (int i, k)) [0..<n])"
    by (simp add: distinct_map inj_on_def)
  then show ?thesis by (auto simp: count_list_distinct)
qed

lemma count_diagonal_targets:
  "count_list (map (\<lambda>i. (int n - int i - 1, int i)) [0..<n]) (int i, int j) =
     (if int i = int n - int j - 1 \<and> j < n then 1 else 0)"
proof -
  have "distinct (map (\<lambda>i. (int n - int i - 1, int i)) [0..<n])"
    by (simp add: distinct_map inj_on_def)
  then show ?thesis by (auto simp: count_list_distinct)
qed

lemma after_flip_fields [simp]:
  "pieces (checkFlipsFromPlayerMessage s) = pieces s"
  "playerEachFlipCount (checkFlipsFromPlayerMessage s) = playerEachFlipCount s"
  "suggestedFlipCount (checkFlipsFromPlayerMessage s) = suggestedFlipCount s"
  "extraFlipsThanNecessary (checkFlipsFromPlayerMessage s) = extraFlipsThanNecessary s"
  "messages (checkFlipsFromPlayerMessage s) = messages s"
  "pieces (displayCongratMessage s) = pieces s"
  "playerEachFlipCount (displayCongratMessage s) = playerEachFlipCount s"
  "suggestedFlipCount (displayCongratMessage s) = suggestedFlipCount s"
  "extraFlipsThanNecessary (displayCongratMessage s) = extraFlipsThanNecessary s"
  "pieces (displayCountflipsFromPlayerMessage s) = pieces s"
  "playerEachFlipCount (displayCountflipsFromPlayerMessage s) = playerEachFlipCount s"
  "suggestedFlipCount (displayCountflipsFromPlayerMessage s) = suggestedFlipCount s"
  "extraFlipsThanNecessary (displayCountflipsFromPlayerMessage s) = extraFlipsThanNecessary s"
  "pieces (displayFlipSuggestionMessage s) = pieces s"
  "playerEachFlipCount (displayFlipSuggestionMessage s) = playerEachFlipCount s"
  "suggestedFlipCount (displayFlipSuggestionMessage s) = suggestedFlipCount s"
  "extraFlipsThanNecessary (displayFlipSuggestionMessage s) = extraFlipsThanNecessary s"
  by (simp_all add: checkFlipsFromPlayerMessage_def displayCongratMessage_def
      displayCountflipsFromPlayerMessage_def displayFlipSuggestionMessage_def)

lemma scoreSystem_fields [simp]:
  "pieces (scoreSystem s) = pieces s"
  "playerEachFlipCount (scoreSystem s) = playerEachFlipCount s"
  "suggestedFlipCount (scoreSystem s) = suggestedFlipCount s"
  "extraFlipsThanNecessary (scoreSystem s) = extraFlipsThanNecessary s"
  by (simp_all add: scoreSystem_def)

lemma after_flips_fields [simp]:
  "pieces (after_flips s ps) = ps"
  "playerEachFlipCount (after_flips s ps) = playerEachFlipCount s + 1"
  "suggestedFlipCount (after_flips s ps) = suggestedFlipCount s"
  "extraFlipsThanNecessary (after_flips s ps) = extraFlipsThanNecessary s"
  "messages (after_flips s ps) = messages s"
  by (simp_all add: after_flips_def)

lemma flipPieces_unfold:
  assumes tg: "flip_targets (length (pieces s)) a k = Some rcs"
    and ps: "flip_cells flipPieceTween rcs (pieces s) = Inr ps"
  shows "flipPieces s a k =
     (case checkPuzzleIsSolved (after_flips s ps) of
        Inl e \<Rightarrow> Inl (e, after_flips s ps)
      | Inr solved \<Rightarrow>
          if solved
          then Inr ((scoreSystem (displayCongratMessage (after_flips s ps)))
                      \<lparr>backgroundVisible := False\<rparr>)
          else Inr (after_flips s ps))"
  by (simp add: flipPieces_def after_flips_def Let_def tg ps split: sum.split)

text \<open>What a call of \<open>flipPieces\<close> that returns has done.\<close>

lemma flipPieces_Inr:
  assumes "flipPieces s a k = Inr s'"
  obtains rcs solved where
    "flip_targets (length (pieces s)) a k = Some rcs"
    "flip_cells flipPieceTween rcs (pieces s) = Inr (pieces s')"
    "checkPuzzleIsSolved (after_flips s (pieces s')) = Inr solved"
    "s' = (if solved
           then (scoreSystem (displayCongratMessage (after_flips s (pieces s'))))
                  \<lparr>backgroundVisible := False\<rparr>
           else after_flips s (pieces s'))"
proof -
  from assms obtain rcs where tg: "flip_targets (length (pieces s)) a k = Some rcs"
    by (cases "flip_targets (length (pieces s)) a k") (simp_all add: flipPieces_def)
  from assms tg obtain ps where ps: "flip_cells flipPieceTween rcs (pieces s) = Inr ps"
    by (cases "flip_cells flipPieceTween rcs (pieces s)")
       (simp_all add: flipPieces_def split: prod.splits)
  from assms obtain b where b: "checkPuzzleIsSolved (after_flips s ps) = Inr b"
    unfolding flipPieces_unfold [OF tg ps]
    by (cases "checkPuzzleIsSolved (after_flips s ps)") simp_all
  from assms have s': "s' = (if b then (scoreSystem (displayCongratMessage (after_flips s ps)))
                                      \<lparr>backgroundVisible := False\<rparr>
                             else after_flips s ps)"
    unfolding flipPieces_unfold [OF tg ps] b by (simp split: if_splits)
  then have e: "pieces s' = ps" by simp
  show thesis
  proof (rule that)
    show "flip_targets (length (pieces s)) a k = Some rcs" by (fact tg)
    show "flip_cells flipPieceTween rcs (pieces s) = Inr (pieces s')"
      unfolding e by (fact ps)
    show "checkPuzzleIsSolved (after_flips s (pieces s')) = Inr b"
      unfolding e by (fact b)
    show "s' = (if b
           then (scoreSystem (displayCongratMessage (after_flips s (pieces s'))))
                  \<lparr>backgroundVisible := False\<rparr>
           else after_flips s (pieces s'))"
      unfolding e by (fact s')
  qed
qed

lemma flipPieces_Inr_counts:
  assumes "flipPieces s a k = Inr s'"
  shows "playerEachFlipCount s' = playerEachFlipCount s + 1"
    and "suggestedFlipCount s' = suggestedFlipCount s"
    and "extraFlipsThanNecessary s' = extraFlipsThanNecessary s"
proof -
  from assms obtain solved where
    s': "s' = (if solved
           then (scoreSystem (displayCongratMessage (after_flips s (pieces s'))))
                  \<lparr>backgroundVisible := False\<rparr>
           else after_flips s (pieces s'))"
    by (rule flipPieces_Inr)
  show "playerEachFlipCount s' = playerEachFlipCount s + 1"
    by (subst s') simp
  show "suggestedFlipCount s' = suggestedFlipCount s"
    by (subst s') simp
  show "extraFlipsThanNecessary s' = extraFlipsThanNecessary s"
    by (subst s') simp
qed

lemma square_valid_cells:
  assumes sq: "square (pieces s)"
    and valid: "\<forall>(r, c) \<in> set rcs. 0 \<le> r \<and> r < int (length (pieces s)) \<and>
                  0 \<le> c \<and> c < int (length (pieces s))"
  shows "\<forall>(r, c) \<in> set rcs. 0 \<le> r \<and> r < int (length (pieces s)) \<and>
          0 \<le> c \<and> c < int (length (pieces s ! nat r))"
proof (clarify, intro conjI)
  fix r c assume "(r, c) \<in> set rcs"
  with valid have v: "0 \<le> r" "r < int (length (pieces s))" "0 \<le> c" "c < int (length (pieces s))"
    by auto
  then have "nat r < length (pieces s)" by simp
  from square_nth [OF sq this] v
  show "0 \<le> r" "r < int (length (pieces s))" "0 \<le> c" "c < int (length (pieces s ! nat r))"
    by simp_all
qed


lemma flipPieces_square:
  assumes sq: "square (pieces s)"
    and tg: "flip_targets (length (pieces s)) a k = Some rcs"
    and valid: "\<forall>(r, c) \<in> set rcs. 0 \<le> r \<and> r < int (length (pieces s)) \<and>
                  0 \<le> c \<and> c < int (length (pieces s))"
  shows "\<exists>s'. flipPieces s a k = Inr s' \<and>
           flip_cells flipPieceTween rcs (pieces s) = Inr (pieces s')"
proof -
  from flip_cells_valid [OF square_valid_cells [OF sq valid]]
  obtain ps where ps: "flip_cells flipPieceTween rcs (pieces s) = Inr ps"
    by blast
  from square_shape [OF flip_cells_shape [OF ps]] sq have "square ps" by simp
  then have "square (pieces (after_flips s ps))" by simp
  from checkPuzzleIsSolved_square [OF this]
  obtain solved where solved: "checkPuzzleIsSolved (after_flips s ps) = Inr solved"
    by blast
  have "flipPieces s a k =
          Inr (if solved
               then (scoreSystem (displayCongratMessage (after_flips s ps)))
                      \<lparr>backgroundVisible := False\<rparr>
               else after_flips s ps)"
    by (simp add: flipPieces_unfold [OF tg ps] solved)
  moreover have "pieces (if solved
               then (scoreSystem (displayCongratMessage (after_flips s ps)))
                      \<lparr>backgroundVisible := False\<rparr>
               else after_flips s ps) = ps"
    by simp
  ultimately show ?thesis using ps by auto
qed

section \<open>Row and column flips\<close>

lemma flipPieceTween_funpow:
  "(flipPieceTween ^^ n) p = (if even n then p else p\<lparr>flipped := \<not> flipped p\<rparr>)"
  by (induction n) (auto simp: flipPieceTween_def)

lemma flip_targets_simps:
  "flip_targets n ''ROW'' k = Some (map (\<lambda>i. (k, int i)) [0..<n])"
  "flip_targets n ''COL'' k = Some (map (\<lambda>i. (int i, k)) [0..<n])"
  "flip_targets n ''DIAGONAL'' k = Some (map (\<lambda>i. (int n - int i - 1, int i)) [0..<n])"
  by (simp_all add: flip_targets_def)

text \<open>
  What a command does to a square grid: it returns, the grid keeps its shape, and each
  piece has been flipped as often as the loop visited it.
\<close>

lemma flipPieces_square_cells:
  assumes sq: "square (pieces s)"
    and tg: "flip_targets (length (pieces s)) a k = Some rcs"
    and valid: "\<forall>(r, c) \<in> set rcs. 0 \<le> r \<and> r < int (length (pieces s)) \<and>
                  0 \<le> c \<and> c < int (length (pieces s))"
  shows "\<exists>s'. flipPieces s a k = Inr s' \<and> map length (pieces s') = map length (pieces s) \<and>
           (\<forall>i<length (pieces s). \<forall>j<length (pieces s).
              pieces s' ! i ! j =
                (flipPieceTween ^^ count_list rcs (int i, int j)) (pieces s ! i ! j))"
proof -
  from flipPieces_square [OF sq tg valid] obtain s' where
    s': "flipPieces s a k = Inr s'" and
    cells: "flip_cells flipPieceTween rcs (pieces s) = Inr (pieces s')"
    by blast
  have "pieces s' ! i ! j = (flipPieceTween ^^ count_list rcs (int i, int j)) (pieces s ! i ! j)"
    if "i < length (pieces s)" "j < length (pieces s)" for i j
    using flip_cells_cell [OF cells that(1)] that square_nth [OF sq that(1)] by simp
  with s' flip_cells_shape [OF cells] show ?thesis by blast
qed

text \<open>
  Claim C1, for square grids. On a grid of \<open>n\<close> rows of \<open>n\<close> pieces and for an index
  \<open>0 \<le> k < n\<close>, \<open>flipPieces\<close> with \<open>ROW\<close> returns, keeps the shape of the grid, negates
  \<open>flipped\<close> of every piece of row \<open>k\<close> and leaves every other piece as it was; with
  \<open>COL\<close> it does the same for column \<open>k\<close>.
\<close>

theorem flipPieces_row_col_square:
  assumes "square (pieces s)" and "0 \<le> k" and "k < int (length (pieces s))"
  shows "(\<exists>s'. flipPieces s ''ROW'' k = Inr s' \<and>
            map length (pieces s') = map length (pieces s) \<and>
            (\<forall>i<length (pieces s). \<forall>j<length (pieces s).
               pieces s' ! i ! j =
                 (if int i = k then (pieces s ! i ! j)\<lparr>flipped := \<not> flipped (pieces s ! i ! j)\<rparr>
                  else pieces s ! i ! j))) \<and>
         (\<exists>s'. flipPieces s ''COL'' k = Inr s' \<and>
            map length (pieces s') = map length (pieces s) \<and>
            (\<forall>i<length (pieces s). \<forall>j<length (pieces s).
               pieces s' ! i ! j =
                 (if int j = k then (pieces s ! i ! j)\<lparr>flipped := \<not> flipped (pieces s ! i ! j)\<rparr>
                  else pieces s ! i ! j)))"
proof (intro conjI)
  let ?n = "length (pieces s)"
  have "\<forall>(r, c) \<in> set (map (\<lambda>i. (k, int i)) [0..<?n]). 0 \<le> r \<and> r < int ?n \<and> 0 \<le> c \<and> c < int ?n"
    using assms(2,3) by auto
  from flipPieces_square_cells [OF assms(1) flip_targets_simps(1) this]
  show "\<exists>s'. flipPieces s ''ROW'' k = Inr s' \<and>
            map length (pieces s') = map length (pieces s) \<and>
            (\<forall>i<?n. \<forall>j<?n.
               pieces s' ! i ! j =
                 (if int i = k then (pieces s ! i ! j)\<lparr>flipped := \<not> flipped (pieces s ! i ! j)\<rparr>
                  else pieces s ! i ! j))"
    by (auto simp: count_row_targets flipPieceTween_funpow)
  have "\<forall>(r, c) \<in> set (map (\<lambda>i. (int i, k)) [0..<?n]). 0 \<le> r \<and> r < int ?n \<and> 0 \<le> c \<and> c < int ?n"
    using assms(2,3) by auto
  from flipPieces_square_cells [OF assms(1) flip_targets_simps(2) this]
  show "\<exists>s'. flipPieces s ''COL'' k = Inr s' \<and>
            map length (pieces s') = map length (pieces s) \<and>
            (\<forall>i<?n. \<forall>j<?n.
               pieces s' ! i ! j =
                 (if int j = k then (pieces s ! i ! j)\<lparr>flipped := \<not> flipped (pieces s ! i ! j)\<rparr>
                  else pieces s ! i ! j))"
    by (auto simp: count_col_targets flipPieceTween_funpow)
qed

text \<open>
  The theorem at row 1 and at column 1 of the three-by-three example.
\<close>

theorem flipPieces_row_col_square_witness:
  "square (pieces game3) \<and> (0::int) \<le> 1 \<and> 1 < int (length (pieces game3)) \<and>
   flags (pieces game3) = [[False, False, True], [True, False, True], [True, False, False]] \<and>
   flags (pieces (projr (flipPieces game3 ''ROW'' 1))) =
     [[False, False, True], [False, True, False], [True, False, False]] \<and>
   flags (pieces (projr (flipPieces game3 ''COL'' 1))) =
     [[False, True, True], [True, True, True], [True, True, False]]"
proof -
  have h1: "square (pieces game3)" by code_simp
  have h2: "(0::int) \<le> 1" by simp
  have h3: "1 < int (length (pieces game3))" by code_simp
  have e0: "flags (pieces game3) = [[False, False, True], [True, False, True], [True, False, False]]"
    by code_simp
  have e1: "flags (pieces (projr (flipPieces game3 ''ROW'' 1))) =
     [[False, False, True], [False, True, False], [True, False, False]]"
    by code_simp
  have e2: "flags (pieces (projr (flipPieces game3 ''COL'' 1))) =
     [[False, True, True], [True, True, True], [True, True, False]]"
    by code_simp
  from flipPieces_row_col_square [OF h1 h2 h3] h1 h3 e0 e1 e2 show ?thesis by simp
qed

text \<open>
  Claim C1 as stated, for every grid, fails where a row is longer than the grid has rows:
  the \<open>ROW\<close> loop runs to \<open>this.pieces_.length\<close>, the number of rows. On the single row of
  two pieces, index 0 is a valid row, the piece at \<open>[0][1]\<close> is in it, and the flip leaves
  it as it was.
\<close>

theorem flipPieces_row_wide_counterexample:
  "pieces wide_game = [[\<lparr>flipped = False, scale_x = 1\<rparr>, \<lparr>flipped = True, scale_x = 0\<rparr>]] \<and>
   flipPieces wide_game ''ROW'' 0 =
     Inr \<lparr>pieces = [[\<lparr>flipped = True, scale_x = 1\<rparr>, \<lparr>flipped = True, scale_x = 0\<rparr>]],
          suggestedFlipCount = 0, extraFlipsThanNecessary = 10, playerEachFlipCount = 1,
          hud = Some \<lparr>shown_flips = 1, shown_points = 90\<rparr>, messages = [],
          backgroundVisible = True\<rparr>"
  by (simp add: flipPieces_def flip_targets_def wide_game_def StarcastGame_def shown_def hidden_def
      piece_at_def flipPieceTween_def checkFlipsFromPlayerMessage_def checkPuzzleIsSolved_def)

section \<open>The diagonal flip\<close>

text \<open>
  Claim C2. On a grid of \<open>n\<close> rows of \<open>n\<close> pieces, \<open>flipPieces\<close> with \<open>DIAGONAL\<close> returns,
  keeps the shape of the grid, negates \<open>flipped\<close> of exactly the pieces \<open>[n-1-j][j]\<close> and
  leaves every other piece as it was; the result is the same for any two index
  arguments.
\<close>

theorem flipPieces_diagonal_square:
  assumes "square (pieces s)"
  shows "(\<exists>s'. flipPieces s ''DIAGONAL'' k = Inr s' \<and>
            map length (pieces s') = map length (pieces s) \<and>
            (\<forall>i<length (pieces s). \<forall>j<length (pieces s).
               pieces s' ! i ! j =
                 (if int i = int (length (pieces s)) - 1 - int j
                  then (pieces s ! i ! j)\<lparr>flipped := \<not> flipped (pieces s ! i ! j)\<rparr>
                  else pieces s ! i ! j))) \<and>
         flipPieces s ''DIAGONAL'' k = flipPieces s ''DIAGONAL'' k'"
proof (intro conjI)
  let ?n = "length (pieces s)"
  have "\<forall>(r, c) \<in> set (map (\<lambda>i. (int ?n - int i - 1, int i)) [0..<?n]).
          0 \<le> r \<and> r < int ?n \<and> 0 \<le> c \<and> c < int ?n"
    by auto
  from flipPieces_square_cells [OF assms flip_targets_simps(3) this, of k]
  obtain s' where s': "flipPieces s ''DIAGONAL'' k = Inr s'"
    and shape: "map length (pieces s') = map length (pieces s)"
    and cells: "\<And>i j. i < ?n \<Longrightarrow> j < ?n \<Longrightarrow>
      pieces s' ! i ! j =
        (flipPieceTween ^^ count_list (map (\<lambda>i. (int ?n - int i - 1, int i)) [0..<?n]) (int i, int j))
          (pieces s ! i ! j)"
    by blast
  have "pieces s' ! i ! j =
          (if int i = int ?n - 1 - int j
           then (pieces s ! i ! j)\<lparr>flipped := \<not> flipped (pieces s ! i ! j)\<rparr>
           else pieces s ! i ! j)"
    if "i < ?n" "j < ?n" for i j
  proof -
    have "(int i = int ?n - int j - 1) = (int i = int ?n - 1 - int j)" by auto
    with cells [OF that] that show ?thesis
      by (simp add: count_diagonal_targets flipPieceTween_funpow)
  qed
  with s' shape
  show "\<exists>s'. flipPieces s ''DIAGONAL'' k = Inr s' \<and>
            map length (pieces s') = map length (pieces s) \<and>
            (\<forall>i<?n. \<forall>j<?n.
               pieces s' ! i ! j =
                 (if int i = int ?n - 1 - int j
                  then (pieces s ! i ! j)\<lparr>flipped := \<not> flipped (pieces s ! i ! j)\<rparr>
                  else pieces s ! i ! j))"
    by blast
  show "flipPieces s ''DIAGONAL'' k = flipPieces s ''DIAGONAL'' k'"
    by (simp add: flipPieces_def flip_targets_def)
qed

text \<open>
  The theorem on the three-by-three example, with index arguments 7 and 0.
\<close>

theorem flipPieces_diagonal_square_witness:
  "square (pieces game3) \<and>
   flags (pieces (projr (flipPieces game3 ''DIAGONAL'' 7))) =
     [[False, False, False], [True, True, True], [False, False, False]] \<and>
   flipPieces game3 ''DIAGONAL'' 7 = flipPieces game3 ''DIAGONAL'' 0"
proof -
  have h1: "square (pieces game3)" by code_simp
  have e1: "flags (pieces (projr (flipPieces game3 ''DIAGONAL'' 7))) =
     [[False, False, False], [True, True, True], [False, False, False]]"
    by code_simp
  from flipPieces_diagonal_square [OF h1, of 7 0] h1 e1 show ?thesis by simp
qed

section \<open>An unknown axis\<close>

text \<open>
  Claim C3. For any \<open>rowOrCol\<close> other than \<open>ROW\<close>, \<open>COL\<close> and \<open>DIAGONAL\<close>, \<open>flipPieces\<close> throws
  an Error whose message ends with the value received, and the game at the throw is the
  game before the call: no piece, counter or text has changed.
\<close>

theorem flipPieces_invalid_axis:
  "rowOrCol \<notin> {''ROW'', ''COL'', ''DIAGONAL''} \<Longrightarrow>
   flipPieces s rowOrCol numRowOrCol =
     Inl (Error (''Only Row, COL, DIAGONAL are allowed but received '' @ rowOrCol), s)"
  by (simp add: flipPieces_def flip_targets_def)

text \<open>
  The theorem at the axis \<open>X\<close> on the three-by-three example.
\<close>

theorem flipPieces_invalid_axis_witness:
  "''X'' \<notin> {''ROW'', ''COL'', ''DIAGONAL''} \<and>
   flipPieces game3 ''X'' 0 =
     Inl (Error ''Only Row, COL, DIAGONAL are allowed but received X'', game3)"
proof -
  have h: "''X'' \<notin> {''ROW'', ''COL'', ''DIAGONAL''}" by simp
  from flipPieces_invalid_axis [OF h, of game3 0] h show ?thesis by simp
qed

section \<open>The solved predicate\<close>

text \<open>
  Claim C4, for square grids. On a grid of \<open>n\<close> rows of \<open>n\<close> pieces,
  \<open>checkPuzzleIsSolved\<close> returns true if and only if no piece of the grid is flipped.
\<close>

theorem checkPuzzleIsSolved_square_iff:
  assumes "square (pieces s)"
  shows "checkPuzzleIsSolved s = Inr (\<forall>row \<in> set (pieces s). \<forall>p \<in> set row. \<not> flipped p)"
  using checkPuzzleIsSolved_square [OF assms] by (simp add: list_all_iff)

text \<open>
  The theorem on the three-by-three example, which is not solved, and on that example
  after a flip of the diagonal and of row 1, which is.
\<close>

theorem checkPuzzleIsSolved_square_iff_witness:
  "square (pieces game3) \<and> checkPuzzleIsSolved game3 = Inr False \<and>
   square (pieces (projr (flipPieces game3 ''DIAGONAL'' 0))) \<and>
   checkPuzzleIsSolved (projr (flipPieces (projr (flipPieces game3 ''DIAGONAL'' 0)) ''ROW'' 1)) = Inr True"
proof -
  let ?g = "projr (flipPieces (projr (flipPieces game3 ''DIAGONAL'' 0)) ''ROW'' 1)"
  have h1: "square (pieces game3)" by code_simp
  have h2: "square (pieces (projr (flipPieces game3 ''DIAGONAL'' 0)))" by code_simp
  have h3: "square (pieces ?g)" by code_simp
  have e1: "(\<forall>row \<in> set (pieces game3). \<forall>p \<in> set row. \<not> flipped p) = False" by code_simp
  have e2: "(\<forall>row \<in> set (pieces ?g). \<forall>p \<in> set row. \<not> flipped p) = True" by code_simp
  from checkPuzzleIsSolved_square_iff [OF h1] checkPuzzleIsSolved_square_iff [OF h3] h1 h2 e1 e2
  show ?thesis by simp
qed

text \<open>
  Claim C4 as stated, for every grid, fails where a row is longer than the grid has rows:
  both loops of the check run to \<open>this.pieces_.length\<close>. On the single row of two pieces
  the check reads \<open>[0][0]\<close> only and returns true, while the piece at \<open>[0][1]\<close> is flipped.
\<close>

theorem checkPuzzleIsSolved_wide_counterexample:
  "checkPuzzleIsSolved wide_game = Inr True \<and> flipped (pieces wide_game ! 0 ! 1)"
  by (simp add: checkPuzzleIsSolved_def wide_game_def StarcastGame_def shown_def hidden_def
      piece_at_def)

section \<open>The player's flip count\<close>

lemma checkPuzzleIsSolved_pieces:
  "pieces s' = pieces s \<Longrightarrow> checkPuzzleIsSolved s' = checkPuzzleIsSolved s"
  by (simp add: checkPuzzleIsSolved_def)

lemma push_cols_append:
  "row < length ps \<Longrightarrow>
   push_cols x row cols ps =
     ps[row := ps ! row @ replicate (length cols) (createSpriteFromSpriteSheet x)]"
proof (induction cols arbitrary: ps)
  case Nil
  then show ?case by simp
next
  case (Cons col cols)
  let ?ps1 = "ps[row := ps ! row @ [createSpriteFromSpriteSheet x]]"
  from Cons.prems have "row < length ?ps1" by simp
  from Cons.IH [OF this] Cons.prems show ?case
    by (simp add: replicate_app_Cons_same)
qed

lemma push_rows_append:
  "push_rows x totalCol [length ps..<length ps + m] ps =
     ps @ replicate m (replicate totalCol (createSpriteFromSpriteSheet x))"
proof (induction m arbitrary: ps)
  case 0
  then show ?case by simp
next
  case (Suc m)
  let ?row = "replicate totalCol (createSpriteFromSpriteSheet x)"
  have u: "[length ps..<length ps + Suc m] = length ps # [length (ps @ [?row])..<length (ps @ [?row]) + m]"
    by (simp add: upt_conv_Cons)
  have c: "push_cols x (length ps) [0..<totalCol] (ps @ [[]]) = ps @ [?row]"
    by (simp add: push_cols_append)
  show ?case
    unfolding u push_rows.simps c Suc.IH by (simp add: replicate_app_Cons_same)
qed

lemma push_rows_fresh:
  "push_rows x totalCol [0..<totalRow] [] =
     replicate totalRow (replicate totalCol (createSpriteFromSpriteSheet x))"
  using push_rows_append [of x totalCol "[]" totalRow] by simp

text \<open>
  Scrambling a grid of \<open>R\<close> rows of \<open>C\<close> pieces along lines that stay inside it: every
  draw that holds counts one suggested flip, and nothing else is counted.
\<close>

lemma scramble_lines_inside:
  assumes "map length (pieces s) = replicate R C"
    and "\<forall>(k, rcs) \<in> set lines. \<forall>(r, c) \<in> set rcs. 0 \<le> r \<and> r < int R \<and> 0 \<le> c \<and> c < int C"
  shows "\<exists>s'. scramble_lines rnd lines s = Inr s' \<and>
           map length (pieces s') = replicate R C \<and>
           suggestedFlipCount s' =
             suggestedFlipCount s + int (length (filter rnd (map fst lines))) \<and>
           playerEachFlipCount s' = playerEachFlipCount s \<and>
           extraFlipsThanNecessary s' = extraFlipsThanNecessary s \<and>
           messages s' = messages s"
  using assms
proof (induction lines arbitrary: s)
  case Nil
  then show ?case by simp
next
  case (Cons line lines)
  obtain k rcs where line: "line = (k, rcs)" by (cases line)
  from Cons.prems(2)
  have rest: "\<forall>(k, rcs) \<in> set lines. \<forall>(r, c) \<in> set rcs. 0 \<le> r \<and> r < int R \<and> 0 \<le> c \<and> c < int C"
    by simp
  show ?case
  proof (cases "rnd k")
    case False
    with Cons.IH [OF Cons.prems(1) rest] line show ?thesis by simp
  next
    case True
    have len: "length (pieces s) = R"
      using Cons.prems(1) by (metis length_map length_replicate)
    have row: "length (pieces s ! i) = C" if "i < R" for i
      using Cons.prems(1) that len by (metis nth_map nth_replicate)
    have "\<forall>(r, c) \<in> set rcs. 0 \<le> r \<and> r < int (length (pieces s)) \<and>
            0 \<le> c \<and> c < int (length (pieces s ! nat r))"
      using Cons.prems(2) line len row by auto
    from flip_cells_valid [OF this]
    obtain ps where ps: "flip_cells flipPiece rcs (pieces s) = Inr ps" by blast
    let ?s1 = "s\<lparr>pieces := ps, suggestedFlipCount := suggestedFlipCount s + 1\<rparr>"
    from flip_cells_shape [OF ps] Cons.prems(1)
    have "map length (pieces ?s1) = replicate R C" by simp
    from Cons.IH [OF this rest] obtain s' where
      "scramble_lines rnd lines ?s1 = Inr s'"
      "map length (pieces s') = replicate R C"
      "suggestedFlipCount s' = suggestedFlipCount ?s1 + int (length (filter rnd (map fst lines)))"
      "playerEachFlipCount s' = playerEachFlipCount ?s1"
      "extraFlipsThanNecessary s' = extraFlipsThanNecessary ?s1"
      "messages s' = messages ?s1"
      by blast
    with True line ps show ?thesis by simp
  qed
qed

text \<open>Scrambling never writes the player's count, whether it returns or throws.\<close>

lemma scramble_lines_player:
  "scramble_lines rnd lines s = r \<Longrightarrow>
   playerEachFlipCount (case r of Inl (e, t) \<Rightarrow> t | Inr t \<Rightarrow> t) = playerEachFlipCount s"
proof (induction lines arbitrary: s)
  case Nil
  then show ?case by auto
next
  case (Cons line lines)
  obtain k rcs where line: "line = (k, rcs)" by (cases line)
  show ?case
  proof (cases "rnd k")
    case False
    with Cons line show ?thesis by simp
  next
    case True
    show ?thesis
    proof (cases "flip_cells flipPiece rcs (pieces s)")
      case (Inl et)
      with True line Cons.prems show ?thesis by (cases et) auto
    next
      case (Inr ps)
      with True line Cons.prems
      have "scramble_lines rnd lines (s\<lparr>pieces := ps, suggestedFlipCount := suggestedFlipCount s + 1\<rparr>) = r"
        by simp
      from Cons.IH [OF this] show ?thesis by simp
    qed
  qed
qed

lemma scramble_plan_draws:
  "map fst (scramble_plan len totalRow totalCol) = [0..<totalRow + totalCol + 1]"
proof -
  have "map (\<lambda>col. totalRow + col) [0..<totalCol] = [totalRow..<totalRow + totalCol]"
    using map_add_upt [of totalRow totalCol] by (simp add: add.commute)
  then have "map fst (scramble_plan len totalRow totalCol) =
      [0..<totalRow] @ [totalRow..<totalRow + totalCol] @ [totalRow + totalCol]"
    by (simp add: scramble_plan_def comp_def)
  also have "\<dots> = [0..<totalRow + totalCol + 1]"
    by (simp add: upt_add_eq_append [symmetric])
  finally show ?thesis .
qed

text \<open>
  On a square grid a call of \<open>flipPieces\<close> can only throw before the count is written: on
  an unknown axis, or in the flipping loop. The solved check that follows the count finds
  every piece it reads.
\<close>

lemma flipPieces_thrown_square:
  assumes sq: "square (pieces s)" and thrown: "flipPieces s a k = Inl (e, s')"
  shows "playerEachFlipCount s' = playerEachFlipCount s"
proof (cases "flip_targets (length (pieces s)) a k")
  case None
  with thrown show ?thesis by (simp add: flipPieces_def)
next
  case (Some rcs)
  show ?thesis
  proof (cases "flip_cells flipPieceTween rcs (pieces s)")
    case (Inl et)
    with Some thrown show ?thesis by (cases et) (auto simp: flipPieces_def)
  next
    case (Inr ps)
    from square_shape [OF flip_cells_shape [OF Inr]] sq have "square ps" by simp
    then have "square (pieces (after_flips s ps))" by simp
    from checkPuzzleIsSolved_square [OF this]
    obtain solved where "checkPuzzleIsSolved (after_flips s ps) = Inr solved" by blast
    with thrown show ?thesis
      unfolding flipPieces_unfold [OF Some Inr] by (simp split: if_splits)
  qed
qed

text \<open>
  Claim C6, for calls that return. A call of \<open>flipPieces\<close> that returns has incremented
  \<open>playerEachFlipCount\<close> by exactly one, whatever the axis; on a square grid every call with
  \<open>DIAGONAL\<close>, or with \<open>ROW\<close> or \<open>COL\<close> and an index inside the grid, returns, and a call
  that throws leaves the count as it was. No other operation writes the count: creating
  and scrambling the grid (whether it returns or throws), the heads-up display, the score
  system and the three messages leave it as it was.
\<close>

theorem playerEachFlipCount_counts_flips:
  "(flipPieces s a k = Inr s' \<longrightarrow> playerEachFlipCount s' = playerEachFlipCount s + 1) \<and>
   (square (pieces s) \<and> (a = ''DIAGONAL'' \<or> (a = ''ROW'' \<or> a = ''COL'') \<and>
       0 \<le> k \<and> k < int (length (pieces s))) \<longrightarrow>
      (\<exists>t. flipPieces s a k = Inr t \<and> playerEachFlipCount t = playerEachFlipCount s + 1)) \<and>
   (square (pieces s) \<and> flipPieces s a k = Inl (e, s') \<longrightarrow>
      playerEachFlipCount s' = playerEachFlipCount s) \<and>
   (instantiatePuzzlePiecesAndControlButtons s totalRow totalCol x rnd = Inr s' \<longrightarrow>
      playerEachFlipCount s' = playerEachFlipCount s) \<and>
   (instantiatePuzzlePiecesAndControlButtons s totalRow totalCol x rnd = Inl (e, s') \<longrightarrow>
      playerEachFlipCount s' = playerEachFlipCount s) \<and>
   playerEachFlipCount (checkFlipsFromPlayerMessage s) = playerEachFlipCount s \<and>
   playerEachFlipCount (scoreSystem s) = playerEachFlipCount s \<and>
   playerEachFlipCount (displayCountflipsFromPlayerMessage s) = playerEachFlipCount s \<and>
   playerEachFlipCount (displayCongratMessage s) = playerEachFlipCount s \<and>
   playerEachFlipCount (displayFlipSuggestionMessage s) = playerEachFlipCount s"
proof -
  have ret: "playerEachFlipCount t = playerEachFlipCount s + 1" if "flipPieces s a k = Inr t" for t
    using that by (rule flipPieces_Inr_counts)
  have total: "\<exists>t. flipPieces s a k = Inr t"
    if sq: "square (pieces s)"
      and cmd: "a = ''DIAGONAL'' \<or> (a = ''ROW'' \<or> a = ''COL'') \<and> 0 \<le> k \<and> k < int (length (pieces s))"
  proof -
    let ?n = "length (pieces s)"
    from cmd obtain rcs where tg: "flip_targets ?n a k = Some rcs"
      and inside: "\<forall>(r, c) \<in> set rcs. 0 \<le> r \<and> r < int ?n \<and> 0 \<le> c \<and> c < int ?n"
      by (auto simp: flip_targets_def)
    from flipPieces_square [OF sq tg inside] show ?thesis by blast
  qed
  let ?s1 = "s\<lparr>pieces := push_rows x totalCol [0..<totalRow] (pieces s)\<rparr>"
  let ?r = "scramble_lines rnd (scramble_plan (length (pieces ?s1)) totalRow totalCol) ?s1"
  have scr: "playerEachFlipCount (case ?r of Inl (e, t) \<Rightarrow> t | Inr t \<Rightarrow> t) = playerEachFlipCount s"
    using scramble_lines_player [of rnd _ ?s1 ?r] by simp
  have i1: "playerEachFlipCount s' = playerEachFlipCount s"
    if "instantiatePuzzlePiecesAndControlButtons s totalRow totalCol x rnd = Inr s'"
    using that scr
    by (cases ?r) (auto simp: instantiatePuzzlePiecesAndControlButtons_def Let_def)
  have i2: "playerEachFlipCount s' = playerEachFlipCount s"
    if "instantiatePuzzlePiecesAndControlButtons s totalRow totalCol x rnd = Inl (e, s')"
    using that scr
    by (cases ?r) (auto simp: instantiatePuzzlePiecesAndControlButtons_def Let_def)
  have thr: "playerEachFlipCount s' = playerEachFlipCount s"
    if "square (pieces s)" and "flipPieces s a k = Inl (e, s')"
    using that by (rule flipPieces_thrown_square)
  from ret total thr i1 i2 show ?thesis by (simp; blast)
qed

text \<open>
  The theorem on the three-by-three example: a flip of row 1, a flip of the diagonal, a
  flip of row 3, which throws, and creating a further grid after the flip of row 1.
\<close>

theorem playerEachFlipCount_counts_flips_witness:
  "flipPieces game3 ''ROW'' 1 = Inr (projr (flipPieces game3 ''ROW'' 1)) \<and>
   playerEachFlipCount game3 = 0 \<and>
   playerEachFlipCount (projr (flipPieces game3 ''ROW'' 1)) = 1 \<and>
   square (pieces game3) \<and>
   playerEachFlipCount (projr (flipPieces game3 ''DIAGONAL'' 0)) = 1 \<and>
   flipPieces game3 ''ROW'' 3 = Inl (TypeError, snd (projl (flipPieces game3 ''ROW'' 3))) \<and>
   playerEachFlipCount (snd (projl (flipPieces game3 ''ROW'' 3))) = 0 \<and>
   playerEachFlipCount (projr (instantiatePuzzlePiecesAndControlButtons
      (projr (flipPieces game3 ''ROW'' 1)) 3 3 1 (\<lambda>k. k = 3))) = 1"
proof -
  let ?s1 = "projr (flipPieces game3 ''ROW'' 1)"
  let ?s2 = "projr (instantiatePuzzlePiecesAndControlButtons ?s1 3 3 1 (\<lambda>k. k = 3))"
  let ?s3 = "snd (projl (flipPieces game3 ''ROW'' 3))"
  have h1: "flipPieces game3 ''ROW'' 1 = Inr ?s1" by code_simp
  have h2: "square (pieces game3)" by code_simp
  have h3: "instantiatePuzzlePiecesAndControlButtons ?s1 3 3 1 (\<lambda>k. k = 3) = Inr ?s2" by code_simp
  have h4: "flipPieces game3 ''ROW'' 3 = Inl (TypeError, ?s3)" by code_simp
  have e0: "playerEachFlipCount game3 = 0" by code_simp
  from playerEachFlipCount_counts_flips [where s = game3 and a = "''ROW''" and k = 1 and s' = ?s1] h1 e0
  have a: "playerEachFlipCount ?s1 = 1" by simp
  from playerEachFlipCount_counts_flips [where s = game3 and a = "''DIAGONAL''" and k = 0 and s' = game3
      and e = TypeError and totalRow = 0 and totalCol = 0 and x = 0 and rnd = "\<lambda>k. True"]
    h2 e0
  obtain t where "flipPieces game3 ''DIAGONAL'' 0 = Inr t" "playerEachFlipCount t = 1"
    by auto
  then have b: "playerEachFlipCount (projr (flipPieces game3 ''DIAGONAL'' 0)) = 1" by simp
  from playerEachFlipCount_counts_flips [where s = game3 and a = "''ROW''" and k = 3 and e = TypeError
      and s' = ?s3] h2 h4 e0
  have d: "playerEachFlipCount ?s3 = 0" by simp
  from playerEachFlipCount_counts_flips [where s = ?s1 and s' = ?s2 and totalRow = 3 and totalCol = 3
      and x = 1 and rnd = "\<lambda>k. k = 3"] h3 a
  have c: "playerEachFlipCount ?s2 = 1" by simp
  from h1 h2 h4 e0 a b c d show ?thesis by simp
qed

text \<open>
  Claim C6 as stated, for every call, fails for a call that throws in its loop: the
  increment comes after the loops. On the six-by-six game scrambled by a flip of row 0, a
  \<open>ROW\<close> command with index 6 throws at the first piece it looks up and leaves the game,
  the player's count of 0 included, as it was.
\<close>

theorem flipPieces_thrown_uncounted_counterexample:
  "playerEachFlipCount scrambled_row0 = 0 \<and>
   length (pieces scrambled_row0) = 6 \<and>
   flipPieces scrambled_row0 ''ROW'' 6 = Inl (TypeError, scrambled_row0)"
  by code_simp

section \<open>An index outside the grid\<close>

text \<open>
  Claim C9, for grids that are not empty. On a grid of \<open>n \<ge> 1\<close> rows whose first row has
  at most \<open>n\<close> pieces (every square grid that is not empty is one), \<open>flipPieces\<close> with
  \<open>ROW\<close> or \<open>COL\<close> and an index below 0 or from \<open>n\<close> on throws a TypeError at the first
  piece it looks up, and the game at the throw is the game before the call: no piece
  flipped, the player's count as it was.
\<close>

theorem flipPieces_index_out_of_range:
  assumes "pieces s \<noteq> []" and "length (pieces s ! 0) \<le> length (pieces s)"
    and "a = ''ROW'' \<or> a = ''COL''" and "k < 0 \<or> int (length (pieces s)) \<le> k"
  shows "flipPieces s a k = Inl (TypeError, s)"
proof -
  let ?n = "length (pieces s)"
  from assms(1) have n: "[0..<?n] = 0 # [1..<?n]" by (simp add: upt_conv_Cons)
  from assms(3) show ?thesis
  proof
    assume a: "a = ''ROW''"
    from assms(4) have "piece_at (pieces s) k 0 = None" by (auto simp: piece_at_def)
    then have "flip_cells flipPieceTween (map (\<lambda>i. (k, int i)) [0..<?n]) (pieces s) =
                 Inl (TypeError, pieces s)"
      by (simp add: n)
    then show ?thesis by (simp add: flipPieces_def flip_targets_def a)
  next
    assume a: "a = ''COL''"
    from assms(2,4) have "piece_at (pieces s) 0 k = None" by (auto simp: piece_at_def)
    then have "flip_cells flipPieceTween (map (\<lambda>i. (int i, k)) [0..<?n]) (pieces s) =
                 Inl (TypeError, pieces s)"
      by (simp add: n)
    then show ?thesis by (simp add: flipPieces_def flip_targets_def a)
  qed
qed

text \<open>
  The theorem on the three-by-three example, at row 3 and at column -1.
\<close>

theorem flipPieces_index_out_of_range_witness:
  "pieces game3 \<noteq> [] \<and> length (pieces game3 ! 0) \<le> length (pieces game3) \<and>
   int (length (pieces game3)) \<le> 3 \<and> (- 1 :: int) < 0 \<and>
   flipPieces game3 ''ROW'' 3 = Inl (TypeError, game3) \<and>
   flipPieces game3 ''COL'' (- 1) = Inl (TypeError, game3)"
proof -
  have h1: "pieces game3 \<noteq> []" by code_simp
  have h2: "length (pieces game3 ! 0) \<le> length (pieces game3)" by code_simp
  have h3: "int (length (pieces game3)) \<le> 3" by code_simp
  from flipPieces_index_out_of_range [OF h1 h2, of "''ROW''" 3]
       flipPieces_index_out_of_range [OF h1 h2, of "''COL''" "- 1"] h1 h2 h3
  show ?thesis by simp
qed

text \<open>
  Claim C9 as stated, for every grid, fails on the empty grid, which is the grid of a
  game until the image has loaded: every index is outside it, the loop of \<open>flipPieces\<close>
  runs zero times, nothing throws, and the player's count goes from 0 to 1.
\<close>

theorem flipPieces_empty_grid_counterexample:
  "pieces StarcastGame = [] \<and>
   flipPieces StarcastGame ''ROW'' 0 =
     Inr \<lparr>pieces = [], suggestedFlipCount = 0, extraFlipsThanNecessary = 10,
          playerEachFlipCount = 1, hud = Some \<lparr>shown_flips = 1, shown_points = 90\<rparr>,
          messages = [CongratMessage, CountflipsMessage 1 (- 10)], backgroundVisible = False\<rparr>"
  by (simp add: flipPieces_def flip_targets_def StarcastGame_def checkFlipsFromPlayerMessage_def
      checkPuzzleIsSolved_def scoreSystem_def displayCongratMessage_def
      displayCountflipsFromPlayerMessage_def)

section \<open>The score\<close>

text \<open>
  Claim C5 at a concrete game. After a scramble of one flip (row 0 of the six-by-six
  grid) the player flips row 0 back: one flip against one suggested. The heads-up
  display then shows \<open>10 * (1 + 10 - 1) = 100\<close> points, and the final message, written
  by \<open>displayCountflipsFromPlayerMessage\<close> under the same label, shows
  \<open>10 * (1 - 1) = 0\<close> points: it leaves \<open>extraFlipsThanNecessary\<close> out.
\<close>

theorem final_message_drops_allowance:
  "suggestedFlipCount scrambled_row0 = 1 \<and> playerEachFlipCount scrambled_row0 = 0 \<and>
   extraFlipsThanNecessary scrambled_row0 = 10 \<and>
   hud (projr (flipPieces scrambled_row0 ''ROW'' 0)) =
     Some \<lparr>shown_flips = 1, shown_points = 100\<rparr> \<and>
   messages (projr (flipPieces scrambled_row0 ''ROW'' 0)) =
     [FlipSuggestionMessage 1, CongratMessage, CountflipsMessage 1 0]"
  by code_simp

text \<open>
  Claim C10. When a call of \<open>flipPieces\<close> returns with the puzzle solved, it has added
  the congratulation to the screen, followed by the final score message exactly when
  \<open>playerEachFlipCount\<close> (this flip counted) is at least \<open>suggestedFlipCount\<close>; below
  that, nothing follows the congratulation.
\<close>

theorem final_score_only_at_or_above_par:
  assumes "flipPieces s a k = Inr s'" and "checkPuzzleIsSolved s' = Inr True"
  shows "messages s' =
           messages s @ CongratMessage #
             (if suggestedFlipCount s' \<le> playerEachFlipCount s'
              then [CountflipsMessage (playerEachFlipCount s')
                      (10 * (suggestedFlipCount s' - playerEachFlipCount s'))]
              else [])"
proof -
  from assms(1) obtain solved where
    chk: "checkPuzzleIsSolved (after_flips s (pieces s')) = Inr solved" and
    s': "s' = (if solved
           then (scoreSystem (displayCongratMessage (after_flips s (pieces s'))))
                  \<lparr>backgroundVisible := False\<rparr>
           else after_flips s (pieces s'))"
    by (rule flipPieces_Inr)
  have "checkPuzzleIsSolved (after_flips s (pieces s')) = checkPuzzleIsSolved s'"
    by (rule checkPuzzleIsSolved_pieces) simp
  with chk assms(2) have solved by simp
  let ?t = "displayCongratMessage (after_flips s (pieces s'))"
  from s' \<open>solved\<close> have eq: "s' = (scoreSystem ?t)\<lparr>backgroundVisible := False\<rparr>" by simp
  have p: "playerEachFlipCount s' = playerEachFlipCount ?t"
    and g: "suggestedFlipCount s' = suggestedFlipCount ?t"
    by (subst eq, simp)+
  have m: "messages ?t = messages s @ [CongratMessage]"
    by (simp add: displayCongratMessage_def)
  have "messages s' = messages (scoreSystem ?t)" by (subst eq) simp
  also have "\<dots> = messages ?t @
       (if suggestedFlipCount ?t \<le> playerEachFlipCount ?t
        then [CountflipsMessage (playerEachFlipCount ?t)
                (10 * (suggestedFlipCount ?t - playerEachFlipCount ?t))]
        else [])"
    by (simp add: scoreSystem_def displayCountflipsFromPlayerMessage_def)
  finally show ?thesis unfolding p g m by simp
qed

text \<open>
  The theorem at two solving flips: on the two-by-two grid with four suggested flips,
  solved again by the second of two flips of row 0 (no final message), and on the
  six-by-six grid with one suggested flip, solved by one flip (final message).
\<close>

theorem final_score_only_at_or_above_par_witness:
  "flipPieces (projr (flipPieces all_scrambled2 ''ROW'' 0)) ''ROW'' 0 =
     Inr (projr (flip_all all_scrambled2 [(''ROW'', 0), (''ROW'', 0)])) \<and>
   checkPuzzleIsSolved (projr (flip_all all_scrambled2 [(''ROW'', 0), (''ROW'', 0)])) = Inr True \<and>
   suggestedFlipCount (projr (flip_all all_scrambled2 [(''ROW'', 0), (''ROW'', 0)])) = 4 \<and>
   playerEachFlipCount (projr (flip_all all_scrambled2 [(''ROW'', 0), (''ROW'', 0)])) = 2 \<and>
   messages (projr (flip_all all_scrambled2 [(''ROW'', 0), (''ROW'', 0)])) =
     [FlipSuggestionMessage 4, CongratMessage] \<and>
   flipPieces scrambled_row0 ''ROW'' 0 = Inr (projr (flipPieces scrambled_row0 ''ROW'' 0)) \<and>
   checkPuzzleIsSolved (projr (flipPieces scrambled_row0 ''ROW'' 0)) = Inr True \<and>
   suggestedFlipCount (projr (flipPieces scrambled_row0 ''ROW'' 0)) = 1 \<and>
   playerEachFlipCount (projr (flipPieces scrambled_row0 ''ROW'' 0)) = 1 \<and>
   messages (projr (flipPieces scrambled_row0 ''ROW'' 0)) =
     [FlipSuggestionMessage 1, CongratMessage, CountflipsMessage 1 0]"
proof -
  let ?s1 = "projr (flipPieces all_scrambled2 ''ROW'' 0)"
  let ?s2 = "projr (flip_all all_scrambled2 [(''ROW'', 0), (''ROW'', 0)])"
  let ?t = "projr (flipPieces scrambled_row0 ''ROW'' 0)"
  have a1: "flipPieces ?s1 ''ROW'' 0 = Inr ?s2" by code_simp
  have a2: "checkPuzzleIsSolved ?s2 = Inr True" by code_simp
  have a3: "suggestedFlipCount ?s2 = 4" by code_simp
  have a4: "playerEachFlipCount ?s2 = 2" by code_simp
  have a5: "messages ?s1 = [FlipSuggestionMessage 4]" by code_simp
  have b1: "flipPieces scrambled_row0 ''ROW'' 0 = Inr ?t" by code_simp
  have b2: "checkPuzzleIsSolved ?t = Inr True" by code_simp
  have b3: "suggestedFlipCount ?t = 1" by code_simp
  have b4: "playerEachFlipCount ?t = 1" by code_simp
  have b5: "messages scrambled_row0 = [FlipSuggestionMessage 1]" by code_simp
  from final_score_only_at_or_above_par [OF a1 a2] a3 a4 a5
  have "messages ?s2 = [FlipSuggestionMessage 4, CongratMessage]" by simp
  moreover from final_score_only_at_or_above_par [OF b1 b2] b3 b4 b5
  have "messages ?t = [FlipSuggestionMessage 1, CongratMessage, CountflipsMessage 1 0]" by simp
  ultimately show ?thesis using a1 a2 a3 a4 b1 b2 b3 b4 by simp
qed

section \<open>The suggested flip count\<close>

text \<open>
  Claim C8, for grids at least as tall as wide. Started on a game without pieces, with
  \<open>totalCol \<le> totalRow\<close>, \<open>instantiatePuzzlePiecesAndControlButtons\<close> returns a grid of
  \<open>totalRow\<close> rows of \<open>totalCol\<close> pieces, and \<open>suggestedFlipCount\<close> has grown by the number
  of the \<open>totalRow + totalCol + 1\<close> draws that held, one for each row, column or diagonal
  flip that fired, whatever the draws were.
\<close>

theorem scramble_counts_fired:
  assumes "pieces s = []" and "totalCol \<le> totalRow"
  shows "\<exists>s'. instantiatePuzzlePiecesAndControlButtons s totalRow totalCol x rnd = Inr s' \<and>
           map length (pieces s') = replicate totalRow totalCol \<and>
           suggestedFlipCount s' =
             suggestedFlipCount s + int (length (filter rnd [0..<totalRow + totalCol + 1])) \<and>
           length (filter rnd [0..<totalRow + totalCol + 1]) \<le> totalRow + totalCol + 1"
proof -
  let ?new = "replicate totalRow (replicate totalCol (createSpriteFromSpriteSheet x))"
  let ?s1 = "s\<lparr>pieces := ?new\<rparr>"
  let ?plan = "scramble_plan (length (pieces ?s1)) totalRow totalCol"
  have shape: "map length (pieces ?s1) = replicate totalRow totalCol" by simp
  have inside: "\<forall>(k, rcs) \<in> set ?plan. \<forall>(r, c) \<in> set rcs.
                  0 \<le> r \<and> r < int totalRow \<and> 0 \<le> c \<and> c < int totalCol"
    using assms(2) by (auto simp: scramble_plan_def)
  from scramble_lines_inside [OF shape inside, of rnd] obtain s2 where
    s2: "scramble_lines rnd ?plan ?s1 = Inr s2" and
    shape2: "map length (pieces s2) = replicate totalRow totalCol" and
    count: "suggestedFlipCount s2 =
              suggestedFlipCount ?s1 + int (length (filter rnd (map fst ?plan)))"
    by blast
  let ?s' = "displayFlipSuggestionMessage (checkFlipsFromPlayerMessage s2)"
  have "instantiatePuzzlePiecesAndControlButtons s totalRow totalCol x rnd = Inr ?s'"
    using s2 by (simp add: instantiatePuzzlePiecesAndControlButtons_def assms(1) push_rows_fresh)
  moreover have "map length (pieces ?s') = replicate totalRow totalCol"
    using shape2 by simp
  moreover have "suggestedFlipCount ?s' =
      suggestedFlipCount s + int (length (filter rnd [0..<totalRow + totalCol + 1]))"
    using count by (simp add: scramble_plan_draws)
  moreover have "length (filter rnd [0..<totalRow + totalCol + 1]) \<le> totalRow + totalCol + 1"
    using length_filter_le [of rnd "[0..<totalRow + totalCol + 1]"] by simp
  ultimately show ?thesis by blast
qed

text \<open>
  The theorem on the six-by-six grid of the game, where the draws of row 0, of column 1
  and of the diagonal hold.
\<close>

theorem scramble_counts_fired_witness:
  "pieces StarcastGame = [] \<and> (6::nat) \<le> 6 \<and>
   length (filter (\<lambda>k. k = 0 \<or> k = 7 \<or> k = 12) [0..<6 + 6 + 1]) = 3 \<and>
   suggestedFlipCount
     (projr (instantiatePuzzlePiecesAndControlButtons StarcastGame 6 6 1
               (\<lambda>k. k = 0 \<or> k = 7 \<or> k = 12))) = 3"
proof -
  have h1: "pieces StarcastGame = []" by code_simp
  have h2: "(6::nat) \<le> 6" by simp
  have e1: "length (filter (\<lambda>k. k = 0 \<or> k = 7 \<or> k = 12) [0..<6 + 6 + 1]) = 3" by code_simp
  have e2: "suggestedFlipCount StarcastGame = 0" by code_simp
  from scramble_counts_fired [OF h1 h2, of 1 "\<lambda>k. k = 0 \<or> k = 7 \<or> k = 12"] h1 e1 e2
  show ?thesis by auto
qed

text \<open>
  Claim C8 as stated, for every \<open>rows \<times> cols\<close> grid, fails where the grid is wider than
  tall: the diagonal loop runs \<open>i\<close> to \<open>totalCol\<close> and reads row
  \<open>this.pieces_.length - i - 1\<close>. On one row of two pieces, with the draw of the diagonal
  alone holding, the flip fires, flips \<open>[0][0]\<close>, throws at row -1, and the count stays 0.
\<close>

theorem scramble_wide_counterexample:
  "length (filter (\<lambda>k. k = 3) [0..<1 + 2 + 1]) = 1 \<and>
   instantiatePuzzlePiecesAndControlButtons StarcastGame 1 2 1 (\<lambda>k. k = 3) =
     Inl (TypeError,
          \<lparr>pieces = [[\<lparr>flipped = True, scale_x = 0\<rparr>, \<lparr>flipped = False, scale_x = 1\<rparr>]],
           suggestedFlipCount = 0, extraFlipsThanNecessary = 10, playerEachFlipCount = 0,
           hud = None, messages = [], backgroundVisible = True\<rparr>)"
  by code_simp

section \<open>Flips cancel in pairs\<close>

lemma visits_flip_key: "visits n (flip_key cmd) cell = visits n cmd cell"
  by (simp add: visits_def flip_key_def flip_targets_def)

lemma flipPieceTween_twice: "flipPieceTween (flipPieceTween p) = p"
  by (simp add: flipPieceTween_def)

text \<open>
  After a list of commands that all returned, the grid has its shape and each piece has
  been flipped as often as the loops visited it.
\<close>

lemma flip_all_cells:
  assumes "flip_all s cmds = Inr s'"
  shows "map length (pieces s') = map length (pieces s) \<and>
         (\<forall>i<length (pieces s). \<forall>j<length (pieces s ! i).
            pieces s' ! i ! j =
              (flipPieceTween ^^ sum_list (map (\<lambda>cmd. visits (length (pieces s)) cmd (int i, int j)) cmds))
                (pieces s ! i ! j))"
  using assms
proof (induction cmds arbitrary: s)
  case Nil
  then show ?case by simp
next
  case (Cons cmd cmds)
  obtain a k where cmd: "cmd = (a, k)" by (cases cmd)
  from Cons.prems cmd obtain s1 where s1: "flipPieces s a k = Inr s1"
    and rest: "flip_all s1 cmds = Inr s'"
    by (auto split: sum.splits)
  from s1 obtain rcs where tg: "flip_targets (length (pieces s)) a k = Some rcs"
    and cells: "flip_cells flipPieceTween rcs (pieces s) = Inr (pieces s1)"
    by (rule flipPieces_Inr)
  from flip_cells_shape [OF cells] have shape1: "map length (pieces s1) = map length (pieces s)" .
  then have len1: "length (pieces s1) = length (pieces s)" by (rule map_eq_imp_length_eq)
  from Cons.IH [OF rest] have shape: "map length (pieces s') = map length (pieces s1)"
    and ih: "\<And>i j. i < length (pieces s1) \<Longrightarrow> j < length (pieces s1 ! i) \<Longrightarrow>
            pieces s' ! i ! j =
              (flipPieceTween ^^ sum_list (map (\<lambda>cmd. visits (length (pieces s1)) cmd (int i, int j)) cmds))
                (pieces s1 ! i ! j)"
    by blast+
  have "pieces s' ! i ! j =
          (flipPieceTween ^^ sum_list (map (\<lambda>cmd. visits (length (pieces s)) cmd (int i, int j)) (cmd # cmds)))
            (pieces s ! i ! j)"
    if i: "i < length (pieces s)" and j: "j < length (pieces s ! i)" for i j
  proof -
    have "length (pieces s1 ! i) = length (pieces s ! i)"
      using shape1 i len1 by (metis nth_map)
    with i j len1 have "pieces s' ! i ! j =
        (flipPieceTween ^^ sum_list (map (\<lambda>cmd. visits (length (pieces s)) cmd (int i, int j)) cmds))
          (pieces s1 ! i ! j)"
      using ih [of i j] by simp
    also have "pieces s1 ! i ! j = (flipPieceTween ^^ visits (length (pieces s)) cmd (int i, int j)) (pieces s ! i ! j)"
      using flip_cells_cell [OF cells i j] tg cmd by (simp add: visits_def)
    finally have "pieces s' ! i ! j =
        (flipPieceTween ^^ (sum_list (map (\<lambda>cmd. visits (length (pieces s)) cmd (int i, int j)) cmds)
                            + visits (length (pieces s)) cmd (int i, int j)))
          (pieces s ! i ! j)"
      by (simp add: funpow_add)
    then show ?thesis by (simp add: add.commute)
  qed
  with shape shape1 show ?case by simp
qed

lemma even_flips_total:
  assumes "even_flips cmds"
  shows "even (sum_list (map (\<lambda>cmd. visits n cmd cell) cmds))"
proof -
  let ?keys = "map flip_key cmds"
  have "sum_list (map (\<lambda>cmd. visits n cmd cell) cmds) = sum_list (map (\<lambda>key. visits n key cell) ?keys)"
    by (simp add: comp_def visits_flip_key)
  also have "\<dots> = (\<Sum>key \<in> set ?keys. count_list ?keys key * visits n key cell)"
    by (rule sum_list_map_eq_sum_count)
  finally have eq: "sum_list (map (\<lambda>cmd. visits n cmd cell) cmds) =
      (\<Sum>key \<in> set ?keys. count_list ?keys key * visits n key cell)" .
  have "2 dvd (\<Sum>key \<in> set ?keys. count_list ?keys key * visits n key cell)"
  proof (rule dvd_sum)
    fix key assume "key \<in> set ?keys"
    with assms have "even (count_list ?keys key)"
      by (auto simp: even_flips_def list_all_iff)
    then show "2 dvd count_list ?keys key * visits n key cell" by simp
  qed
  with eq show ?thesis by simp
qed

lemma flip_all_even:
  assumes "flip_all s cmds = Inr s'" and "even_flips cmds"
  shows "pieces s' = pieces s"
proof (rule nth_equalityI)
  from flip_all_cells [OF assms(1)]
  have shape: "map length (pieces s') = map length (pieces s)"
    and cells: "\<And>i j. i < length (pieces s) \<Longrightarrow> j < length (pieces s ! i) \<Longrightarrow>
            pieces s' ! i ! j =
              (flipPieceTween ^^ sum_list (map (\<lambda>cmd. visits (length (pieces s)) cmd (int i, int j)) cmds))
                (pieces s ! i ! j)"
    by blast+
  from shape show len: "length (pieces s') = length (pieces s)" by (rule map_eq_imp_length_eq)
  fix i assume "i < length (pieces s')"
  with len have i: "i < length (pieces s)" by simp
  show "pieces s' ! i = pieces s ! i"
  proof (rule nth_equalityI)
    show rowlen: "length (pieces s' ! i) = length (pieces s ! i)"
      using shape i len by (metis nth_map)
    fix j assume "j < length (pieces s' ! i)"
    with rowlen have j: "j < length (pieces s ! i)" by simp
    from cells [OF i j] even_flips_total [OF assms(2)]
    show "pieces s' ! i ! j = pieces s ! i ! j"
      by (simp add: flipPieceTween_funpow)
  qed
qed

lemma even_flips_twice: "even_flips [cmd, cmd]"
  by (simp add: even_flips_def)

lemma flip_all_square:
  assumes "square (pieces s)" and "list_all (valid_flip (length (pieces s))) cmds"
  shows "\<exists>t. flip_all s cmds = Inr t"
  using assms
proof (induction cmds arbitrary: s)
  case Nil
  then show ?case by simp
next
  case (Cons cmd cmds)
  obtain a k where cmd: "cmd = (a, k)" by (cases cmd)
  let ?n = "length (pieces s)"
  from Cons.prems(2) cmd obtain rcs where tg: "flip_targets ?n a k = Some rcs"
    and inside: "\<forall>(r, c) \<in> set rcs. 0 \<le> r \<and> r < int ?n \<and> 0 \<le> c \<and> c < int ?n"
    by (auto simp: valid_flip_def flip_targets_def)
  from flipPieces_square [OF Cons.prems(1) tg inside] obtain s1 where
    s1: "flipPieces s a k = Inr s1" and cells: "flip_cells flipPieceTween rcs (pieces s) = Inr (pieces s1)"
    by blast
  from flip_cells_shape [OF cells] have shape: "map length (pieces s1) = map length (pieces s)" .
  then have "length (pieces s1) = ?n" by (rule map_eq_imp_length_eq)
  moreover from square_shape [OF shape] Cons.prems(1) have "square (pieces s1)" by simp
  ultimately obtain t where "flip_all s1 cmds = Inr t"
    using Cons.IH [of s1] Cons.prems(2) by auto
  with s1 cmd show ?case by simp
qed

text \<open>
  Claim C7. On any grid, when a command has returned and the same command has returned
  again, every piece has the \<open>flipped\<close> flag it had before the two. More generally, when a
  list of commands in which every flip (\<open>ROW r\<close>, \<open>COL c\<close> or \<open>DIAGONAL\<close>) occurs an even
  number of times has been handled, in any order, the flags are what they were, and a
  grid that was solved is solved. On a square grid every list of valid commands is
  handled without a throw.
\<close>

theorem flips_cancel_in_pairs:
  "(flipPieces s a k = Inr s1 \<longrightarrow> flipPieces s1 a k = Inr s2 \<longrightarrow>
      flags (pieces s2) = flags (pieces s)) \<and>
   (flip_all s cmds = Inr s' \<longrightarrow> even_flips cmds \<longrightarrow>
      flags (pieces s') = flags (pieces s) \<and>
      (checkPuzzleIsSolved s = Inr True \<longrightarrow> checkPuzzleIsSolved s' = Inr True)) \<and>
   (square (pieces s) \<longrightarrow> list_all (valid_flip (length (pieces s))) cmds \<longrightarrow>
      (\<exists>t. flip_all s cmds = Inr t))"
proof (intro conjI impI)
  assume "flipPieces s a k = Inr s1" and "flipPieces s1 a k = Inr s2"
  then have "flip_all s [(a, k), (a, k)] = Inr s2" by simp
  from flip_all_even [OF this even_flips_twice]
  show "flags (pieces s2) = flags (pieces s)" by simp
next
  assume run: "flip_all s cmds = Inr s'" and ev: "even_flips cmds"
  from flip_all_even [OF run ev] show "flags (pieces s') = flags (pieces s)" by simp
  assume "checkPuzzleIsSolved s = Inr True"
  with checkPuzzleIsSolved_pieces [OF flip_all_even [OF run ev]]
  show "checkPuzzleIsSolved s' = Inr True" by simp
next
  assume "square (pieces s)" and "list_all (valid_flip (length (pieces s))) cmds"
  then show "\<exists>t. flip_all s cmds = Inr t" by (rule flip_all_square)
qed

text \<open>
  The theorem at column 1 flipped twice on the three-by-three example, and at six
  commands, each flip twice, on the solved grid.
\<close>

theorem flips_cancel_in_pairs_witness:
  "flipPieces game3 ''COL'' 1 = Inr (projr (flipPieces game3 ''COL'' 1)) \<and>
   flipPieces (projr (flipPieces game3 ''COL'' 1)) ''COL'' 1 =
     Inr (projr (flip_all game3 [(''COL'', 1), (''COL'', 1)])) \<and>
   flags (pieces (projr (flip_all game3 [(''COL'', 1), (''COL'', 1)]))) =
     [[False, False, True], [True, False, True], [True, False, False]] \<and>
   flip_all solved3 paired_flips = Inr (projr (flip_all solved3 paired_flips)) \<and>
   even_flips paired_flips \<and>
   square (pieces solved3) \<and> list_all (valid_flip (length (pieces solved3))) paired_flips \<and>
   checkPuzzleIsSolved solved3 = Inr True \<and>
   flags (pieces (projr (flip_all solved3 paired_flips))) =
     [[False, False, False], [False, False, False], [False, False, False]] \<and>
   checkPuzzleIsSolved (projr (flip_all solved3 paired_flips)) = Inr True"
proof -
  let ?s1 = "projr (flipPieces game3 ''COL'' 1)"
  let ?s2 = "projr (flip_all game3 [(''COL'', 1), (''COL'', 1)])"
  let ?t = "projr (flip_all solved3 paired_flips)"
  have a1: "flipPieces game3 ''COL'' 1 = Inr ?s1" by code_simp
  have a2: "flipPieces ?s1 ''COL'' 1 = Inr ?s2" by code_simp
  have a3: "flags (pieces game3) = [[False, False, True], [True, False, True], [True, False, False]]"
    by code_simp
  have b1: "flip_all solved3 paired_flips = Inr ?t" by code_simp
  have b2: "even_flips paired_flips" by code_simp
  have b3: "square (pieces solved3)" by code_simp
  have b4: "list_all (valid_flip (length (pieces solved3))) paired_flips" by code_simp
  have b5: "checkPuzzleIsSolved solved3 = Inr True" by code_simp
  have b6: "flags (pieces solved3) = [[False, False, False], [False, False, False], [False, False, False]]"
    by code_simp
  from flips_cancel_in_pairs [of game3 "''COL''" 1 ?s1 ?s2] a1 a2 a3
  have a: "flags (pieces ?s2) = [[False, False, True], [True, False, True], [True, False, False]]"
    by simp
  from flips_cancel_in_pairs [of solved3 _ _ _ _ paired_flips ?t] b1 b2 b5 b6
  have b: "flags (pieces ?t) = [[False, False, False], [False, False, False], [False, False, False]]"
    and c: "checkPuzzleIsSolved ?t = Inr True"
    by simp_all
  from a1 a2 a b1 b2 b3 b4 b5 b c show ?thesis by simp
qed


end
